theory Spec2Isabelle
  imports Complex_Main "HOL-Library.Word"
begin

section \<open>The pixel codec of build\_rgb.cpp\<close>

text \<open>
  The program \<^verbatim>\<open>src/batch/cpp/build_rgb.cpp\<close> reads two rasters of unsigned 16-bit
  samples row by row and writes three rows of unsigned 8-bit samples per input row.
  Everything is in \<^verbatim>\<open>main\<close>; the definitions below follow its statements, with the
  line numbers of the source in the comments.
\<close>

type_synonym u16 = "16 word"
type_synonym u8 = "8 word"

subsection \<open>C++ library functions used by line 103\<close>

text \<open>
  \<^verbatim>\<open>std::string::substr\<close> and \<^verbatim>\<open>std::stoi\<close> throw; the exceptions are values here.
\<close>

datatype cpp_error = invalid_argument | out_of_range

text \<open>
  Integer division and remainder of C++ truncate towards zero, those of HOL round
  towards minus infinity.
\<close>

definition c_div :: "int \<Rightarrow> int \<Rightarrow> int" where
  "c_div a b = (if (a < 0) = (b < 0) then \<bar>a\<bar> div \<bar>b\<bar> else - (\<bar>a\<bar> div \<bar>b\<bar>))"

definition c_mod :: "int \<Rightarrow> int \<Rightarrow> int" where
  "c_mod a b = a - b * c_div a b"

text \<open>
  \<^verbatim>\<open>std::to_string(int)\<close>: the decimal digits, most significant first, after a minus
  sign for a negative value. The \<^verbatim>\<open>uint16_t\<close> argument of line 103 is promoted to
  \<^verbatim>\<open>int\<close>.
\<close>

definition digit_char :: "nat \<Rightarrow> char" where
  "digit_char d = ''0123456789'' ! (d mod 10)"

fun digits :: "nat \<Rightarrow> string" where
  "digits n = (if n < 10 then [digit_char n] else digits (n div 10) @ [digit_char (n mod 10)])"

declare digits.simps [simp del]

definition to_string :: "int \<Rightarrow> string" where
  "to_string n = (if n < 0 then CHR ''-'' # digits (nat (- n)) else digits (nat n))"

text \<open>
  \<^verbatim>\<open>s.substr(pos)\<close>: the characters from position \<open>pos\<close> on; throws
  \<^verbatim>\<open>std::out_of_range\<close> when \<open>pos\<close> is past the end.
\<close>

definition substr :: "nat \<Rightarrow> string \<Rightarrow> cpp_error + string" where
  "substr pos s = (if length s < pos then Inl out_of_range else Inr (drop pos s))"

text \<open>
  \<^verbatim>\<open>std::stoi(s)\<close> in base 10, as \<^verbatim>\<open>strtol\<close> reads it: leading white space is skipped,
  one sign is accepted, then the longest run of decimal digits is converted and what
  follows it is ignored. No digit at all throws \<^verbatim>\<open>std::invalid_argument\<close>, a value
  that does not fit a 32-bit \<^verbatim>\<open>int\<close> throws \<^verbatim>\<open>std::out_of_range\<close>.
\<close>

definition isspace :: "char \<Rightarrow> bool" where
  "isspace c = (c = CHR '' '' \<or> (9 \<le> (of_char c :: nat) \<and> (of_char c :: nat) \<le> 13))"

definition isdigit :: "char \<Rightarrow> bool" where
  "isdigit c = (48 \<le> (of_char c :: nat) \<and> (of_char c :: nat) \<le> 57)"

definition digit_val :: "char \<Rightarrow> int" where
  "digit_val c = of_char c - 48"

definition stoi :: "string \<Rightarrow> cpp_error + int" where
  "stoi s =
     (let s1 = dropWhile isspace s;
          neg = (s1 \<noteq> [] \<and> hd s1 = CHR ''-'');
          s2 = (if s1 \<noteq> [] \<and> (hd s1 = CHR ''-'' \<or> hd s1 = CHR ''+'') then tl s1 else s1);
          ds = takeWhile isdigit s2;
          v = foldl (\<lambda>acc c. acc * 10 + digit_val c) 0 ds;
          r = (if neg then - v else v)
      in if ds = [] then Inl invalid_argument
         else if r < - (2 ^ 31) \<or> 2 ^ 31 - 1 < r then Inl out_of_range
         else Inr r)"

subsection \<open>The body of the column loop, lines 85 to 109\<close>

text \<open>
  Lines 85 to 92: \<^verbatim>\<open>total_days\<close>, an \<^verbatim>\<open>int\<close>, from the alert sample. The sample is
  promoted to \<^verbatim>\<open>int\<close> before it is compared and subtracted, so nothing wraps.
\<close>

definition total_days :: "u16 \<Rightarrow> int" where
  "total_days in1 =
     (if uint in1 < 20000 then 0
      else if uint in1 < 30000 then uint in1 - 20000
      else uint in1 - 30000)"

text \<open>
  Line 103, the right-hand side:
  \<^verbatim>\<open>stoi(to_string(in1_data[x]).substr(1)) % 255\<close>.
\<close>

definition string_confidence :: "u16 \<Rightarrow> cpp_error + int" where
  "string_confidence in1 =
     (case substr 1 (to_string (uint in1)) of
        Inl e \<Rightarrow> Inl e
      | Inr s \<Rightarrow> (case stoi s of Inl e \<Rightarrow> Inl e | Inr n \<Rightarrow> Inr (c_mod n 255)))"

text \<open>
  One pixel: the values stored into \<^verbatim>\<open>out_data1[x]\<close>, \<^verbatim>\<open>out_data2[x]\<close> and
  \<^verbatim>\<open>out_data3[x]\<close>, in this order. Each store converts an \<^verbatim>\<open>int\<close> (on line 98 a
  \<^verbatim>\<open>uint16_t\<close>) to \<^verbatim>\<open>uint8_t\<close>, which keeps the low 8 bits. An exception of line 103
  is not caught anywhere, so it ends the program: the result is \<open>Inl\<close>.
\<close>

definition encode :: "u16 \<Rightarrow> u16 \<Rightarrow> cpp_error + (u8 \<times> u8 \<times> u8)" where
  "encode in1 in2 =
     (let out1 = (word_of_int (c_div (total_days in1) 255) :: u8)
      in if uint in1 < 20000 then Inr (out1, 0, ucast in2)
         else (case string_confidence in1 of
                 Inl e \<Rightarrow> Inl e
               | Inr c \<Rightarrow>
                   if 20000 \<le> uint in1 \<and> uint in1 \<le> 29999
                   then Inr (out1, word_of_int c, word_of_int (100 + uint in2))
                   else Inr (out1, word_of_int c, word_of_int (200 + uint in2))))"

section \<open>The row loop, lines 80 to 114\<close>

subsection \<open>GDAL as the environment\<close>

text \<open>
  \<^verbatim>\<open>GDALRasterBand::RasterIO\<close> is not code of this program. It returns a \<^verbatim>\<open>CPLErr\<close>
  and, when reading, fills the caller's array. A read is a function of the band
  (1 for \<^verbatim>\<open>INBAND\<close>, 2 for \<^verbatim>\<open>INBAND2\<close>), the row and the array's content before the
  call; it gives the status and the array's content after the call, so that a failed
  read may leave the array as it was or change it. A write is a function of the band
  (1, 2, 3 for \<^verbatim>\<open>OUTBAND1\<close>, \<^verbatim>\<open>OUTBAND2\<close>, \<^verbatim>\<open>OUTBAND3\<close>), the row and the samples;
  it gives the status.
\<close>

datatype CPLErr = CE_None | CE_Debug | CE_Warning | CE_Failure | CE_Fatal

datatype GDALRWFlag = GF_Read | GF_Write

record raster_io =
  rio_read :: "nat \<Rightarrow> nat \<Rightarrow> u16 list \<Rightarrow> CPLErr \<times> u16 list"
  rio_write :: "nat \<Rightarrow> nat \<Rightarrow> u8 list \<Rightarrow> CPLErr"

text \<open>
  What the program did to the rasters, in the order of the calls: the band, the row,
  the samples handed over by a write, and the status that \<^verbatim>\<open>RasterIO\<close> returned.
\<close>

datatype io_event =
  RowRead nat nat CPLErr
| RowWrite nat nat "u8 list" CPLErr

subsection \<open>The five row arrays, lines 74 to 78\<close>

record buffers =
  in1_data :: "u16 list"
  in2_data :: "u16 list"
  out_data1 :: "u8 list"
  out_data2 :: "u8 list"
  out_data3 :: "u8 list"

text \<open>Lines 74 to 78 declare each of the five arrays with \<^verbatim>\<open>xsize\<close> elements.\<close>

definition buffers_of_size :: "nat \<Rightarrow> buffers \<Rightarrow> bool" where
  "buffers_of_size xsize b =
     (length (in1_data b) = xsize \<and> length (in2_data b) = xsize \<and>
      length (out_data1 b) = xsize \<and> length (out_data2 b) = xsize \<and>
      length (out_data3 b) = xsize)"

text \<open>Lines 81 and 82: both reads of row \<open>y\<close>; the returned status is dropped.\<close>

definition read_rows :: "raster_io \<Rightarrow> nat \<Rightarrow> buffers \<Rightarrow> buffers \<times> io_event list" where
  "read_rows g y b =
     (let r1 = rio_read g 1 y (in1_data b);
          r2 = rio_read g 2 y (in2_data b)
      in (b\<lparr>in1_data := snd r1, in2_data := snd r2\<rparr>,
          [RowRead 1 y (fst r1), RowRead 2 y (fst r2)]))"

text \<open>Lines 94, 97 and 98, 103 to 108: the three stores at column \<open>x\<close>.\<close>

definition store_pixel :: "nat \<Rightarrow> u8 \<times> u8 \<times> u8 \<Rightarrow> buffers \<Rightarrow> buffers" where
  "store_pixel x p b =
     b\<lparr>out_data1 := (out_data1 b)[x := fst p],
       out_data2 := (out_data2 b)[x := fst (snd p)],
       out_data3 := (out_data3 b)[x := snd (snd p)]\<rparr>"

text \<open>
  Lines 83 to 110: \<^verbatim>\<open>for(x=0; x<xsize; x++)\<close>. The arrays have \<^verbatim>\<open>xsize\<close> elements, so
  every index of the loop is in range when the lists have that length.
\<close>

function pixel_loop :: "nat \<Rightarrow> nat \<Rightarrow> buffers \<Rightarrow> cpp_error + buffers" where
  "pixel_loop x xsize b =
     (if x < xsize then
        (case encode (in1_data b ! x) (in2_data b ! x) of
           Inl e \<Rightarrow> Inl e
         | Inr p \<Rightarrow> pixel_loop (Suc x) xsize (store_pixel x p b))
      else Inr b)"
  by pat_completeness auto
termination
  by (relation "measure (\<lambda>(x, xsize, b). xsize - x)") auto

declare pixel_loop.simps [simp del]

text \<open>Lines 111 to 113: the three writes of row \<open>y\<close>; the returned status is dropped.\<close>

definition write_rows :: "raster_io \<Rightarrow> nat \<Rightarrow> buffers \<Rightarrow> io_event list" where
  "write_rows g y b =
     [RowWrite 1 y (out_data1 b) (rio_write g 1 y (out_data1 b)),
      RowWrite 2 y (out_data2 b) (rio_write g 2 y (out_data2 b)),
      RowWrite 3 y (out_data3 b) (rio_write g 3 y (out_data3 b))]"

text \<open>
  Lines 80 to 114: \<^verbatim>\<open>for(y=0; y<ysize; y++)\<close>. The sizes are those of the first band,
  never negative, and \<open>y\<close> stays below \<^verbatim>\<open>ysize\<close>, so natural numbers model the
  \<^verbatim>\<open>int\<close> counters.
\<close>

function row_loop ::
  "raster_io \<Rightarrow> nat \<Rightarrow> nat \<Rightarrow> nat \<Rightarrow> buffers \<times> io_event list \<Rightarrow> cpp_error + buffers \<times> io_event list"
where
  "row_loop g xsize ysize y st =
     (if y < ysize then
        (case pixel_loop 0 xsize (fst (read_rows g y (fst st))) of
           Inl e \<Rightarrow> Inl e
         | Inr b \<Rightarrow>
             row_loop g xsize ysize (Suc y)
               (b, snd st @ snd (read_rows g y (fst st)) @ write_rows g y b))
      else Inr st)"
  by pat_completeness auto
termination
  by (relation "measure (\<lambda>(g, xsize, ysize, y, st). ysize - y)") auto

declare row_loop.simps [simp del]

text \<open>
  The loop from row 0, started on arrays of any content (they are not initialised)
  and with nothing done yet.
\<close>

definition main_loop :: "raster_io \<Rightarrow> nat \<Rightarrow> nat \<Rightarrow> buffers \<Rightarrow> cpp_error + buffers \<times> io_event list" where
  "main_loop g xsize ysize b0 = row_loop g xsize ysize 0 (b0, [])"

subsection \<open>Reading a trace\<close>

fun event_op :: "io_event \<Rightarrow> GDALRWFlag \<times> nat \<times> nat" where
  "event_op (RowRead k y e) = (GF_Read, k, y)"
| "event_op (RowWrite k y d e) = (GF_Write, k, y)"

fun event_status :: "io_event \<Rightarrow> CPLErr" where
  "event_status (RowRead k y e) = e"
| "event_status (RowWrite k y d e) = e"

text \<open>The calls of one row: a pair of reads, then a triple of writes.\<close>

definition row_ops :: "nat \<Rightarrow> (GDALRWFlag \<times> nat \<times> nat) list" where
  "row_ops y = [(GF_Read, 1, y), (GF_Read, 2, y), (GF_Write, 1, y), (GF_Write, 2, y), (GF_Write, 3, y)]"

text \<open>A run that treats a failure as fatal does nothing after the first failed call.\<close>

fun stops_at_failure :: "io_event list \<Rightarrow> bool" where
  "stops_at_failure [] = True"
| "stops_at_failure (e # es) = (if event_status e = CE_None then stops_at_failure es else es = [])"

section \<open>The georeference of the output, lines 47, 48 and 64 to 68\<close>

text \<open>
  \<^verbatim>\<open>GeoTransform\<close> is an array of six \<^verbatim>\<open>double\<close>. The program copies three of them and
  computes \<^verbatim>\<open>-1*pixelsize\<close>, which is exact in binary floating point, so real numbers
  model the coefficients.
\<close>

record georeference =
  geotransform :: "real list"
  projection :: string

text \<open>
  Line 48 and line 66: \<^verbatim>\<open>ulx\<close>, \<^verbatim>\<open>uly\<close>, \<^verbatim>\<open>pixelsize\<close> and the array
  \<^verbatim>\<open>adfGeoTransform\<close> built from them.
\<close>

definition adfGeoTransform :: "real list \<Rightarrow> real list" where
  "adfGeoTransform GeoTransform =
     (let ulx = GeoTransform ! 0; uly = GeoTransform ! 3; pixelsize = GeoTransform ! 1
      in [ulx, pixelsize, 0, uly, 0, - 1 * pixelsize])"

text \<open>
  Lines 64, 65 and 68: what \<^verbatim>\<open>SetGeoTransform\<close> and \<^verbatim>\<open>SetProjection\<close> receive. The text
  that \<^verbatim>\<open>importFromEPSG\<close> and \<^verbatim>\<open>exportToWkt\<close> produce for an EPSG code comes from GDAL:
  it is the parameter \<open>wkt\<close>.
\<close>

definition output_georeference :: "(nat \<Rightarrow> string) \<Rightarrow> real list \<Rightarrow> georeference" where
  "output_georeference wkt GeoTransform =
     \<lparr>geotransform = adfGeoTransform GeoTransform, projection = wkt 3857\<rparr>"

section \<open>Two small rasters\<close>

text \<open>
  The raster of the specification's last scenario: one row of two columns, alert
  samples 0 and 30001, intensity samples 3 and 3; every call succeeds.
\<close>

definition sample_io :: raster_io where
  "sample_io =
     \<lparr>rio_read = (\<lambda>k y buf. (CE_None, if k = 1 then [0, 30001] else [3, 3])),
      rio_write = (\<lambda>k y d. CE_None)\<rparr>"

definition sample_buffers :: buffers where
  "sample_buffers =
     \<lparr>in1_data = [0, 0], in2_data = [0, 0], out_data1 = [0, 0], out_data2 = [0, 0],
      out_data3 = [0, 0]\<rparr>"

text \<open>
  A raster of two rows and one column, alert sample 30001 and intensity sample 3 in
  both rows, where the read of row 0 of the first band fails and leaves the array as
  it was; every other call succeeds.
\<close>

definition failing_io :: raster_io where
  "failing_io =
     \<lparr>rio_read = (\<lambda>k y buf. if k = 1 \<and> y = 0 then (CE_Failure, buf)
                    else (CE_None, if k = 1 then [30001] else [3])),
      rio_write = (\<lambda>k y d. CE_None)\<rparr>"

definition failing_buffers :: buffers where
  "failing_buffers =
     \<lparr>in1_data = [0], in2_data = [0], out_data1 = [0], out_data2 = [0], out_data3 = [0]\<rparr>"

text \<open>A stand-in for the text that GDAL exports for an EPSG code.\<close>

definition epsg_label :: "nat \<Rightarrow> string" where
  "epsg_label code = ''EPSG:'' @ digits code"

section \<open>The integer definition of the specification\<close>

text \<open>
  The specification (section 4.1) defines the confidence byte by integer arithmetic
  alone: the day offset of the alert class, reduced modulo 255. These two definitions
  follow its words, to be compared with \<^const>\<open>string_confidence\<close>.
\<close>

definition spec_dayOffset :: "int \<Rightarrow> int" where
  "spec_dayOffset alert =
     (if alert < 20000 then 0
      else if 20000 \<le> alert \<and> alert \<le> 29999 then alert - 20000
      else alert - 30000)"

definition spec_confidenceByte :: "int \<Rightarrow> int" where
  "spec_confidenceByte alert = spec_dayOffset alert mod 255"

section \<open>Facts about the library functions\<close>

lemma c_div_nonneg: "0 \<le> a \<Longrightarrow> 0 < b \<Longrightarrow> c_div a b = a div b"
  by (simp add: c_div_def)

lemma c_mod_nonneg: "0 \<le> a \<Longrightarrow> 0 < b \<Longrightarrow> c_mod a b = a mod b"
  by (simp add: c_mod_def c_div_nonneg minus_mult_div_eq_mod)

lemma digits_small: "n < 10 \<Longrightarrow> digits n = [digit_char n]"
  by (subst digits.simps) simp

lemma digits_large: "10 \<le> n \<Longrightarrow> digits n = digits (n div 10) @ [digit_char (n mod 10)]"
  by (subst digits.simps) simp

lemma digits_five:
  assumes "10000 \<le> n" and "n < 100000"
  shows "digits n = [digit_char (n div 10000), digit_char (n div 1000 mod 10),
     digit_char (n div 100 mod 10), digit_char (n div 10 mod 10), digit_char (n mod 10)]"
proof -
  have a: "digits n = digits (n div 10) @ [digit_char (n mod 10)]"
    using assms by (intro digits_large) simp
  have b: "digits (n div 10) = digits (n div 100) @ [digit_char (n div 10 mod 10)]"
    using assms by (subst digits_large) (simp_all add: div_mult2_eq [symmetric])
  have c: "digits (n div 100) = digits (n div 1000) @ [digit_char (n div 100 mod 10)]"
    using assms by (subst digits_large) (simp_all add: div_mult2_eq [symmetric])
  have d: "digits (n div 1000) = digits (n div 10000) @ [digit_char (n div 1000 mod 10)]"
    using assms by (subst digits_large) (simp_all add: div_mult2_eq [symmetric])
  have e: "digits (n div 10000) = [digit_char (n div 10000)]"
    using assms by (intro digits_small) simp
  show ?thesis by (simp add: a b c d e)
qed

lemma below_ten:
  "(k::nat) < 10 \<Longrightarrow> k = 0 \<or> k = 1 \<or> k = 2 \<or> k = 3 \<or> k = 4 \<or> k = 5 \<or> k = 6 \<or> k = 7 \<or> k = 8 \<or> k = 9"
  by (simp add: eval_nat_numeral less_Suc_eq)

lemma digit_char_cases: "digit_char d \<in> set ''0123456789''"
  unfolding digit_char_def by (rule nth_mem) simp

lemma digit_val_digit_char: "digit_val (digit_char d) = int (d mod 10)"
proof -
  have "d mod 10 < 10" by simp
  from below_ten [OF this] show ?thesis
    unfolding digit_char_def digit_val_def by (elim disjE) simp_all
qed

lemma isdigit_digit_char: "isdigit (digit_char d)"
  using digit_char_cases [of d] by (auto simp: isdigit_def)

lemma isspace_digit_char: "\<not> isspace (digit_char d)"
  using digit_char_cases [of d] by (auto simp: isspace_def)

lemma digit_char_not_sign: "digit_char d \<noteq> CHR ''-''" "digit_char d \<noteq> CHR ''+''"
  using digit_char_cases [of d] by auto

lemma stoi_four:
  "stoi [digit_char a, digit_char b, digit_char c, digit_char d] =
     Inr (int (a mod 10) * 1000 + int (b mod 10) * 100 + int (c mod 10) * 10 + int (d mod 10))"
  by (simp add: stoi_def Let_def digit_val_digit_char isdigit_digit_char isspace_digit_char
      digit_char_not_sign)

lemma four_digits_value:
  fixes m :: nat
  shows "int (m div 1000 mod 10) * 1000 + int (m div 100 mod 10) * 100
           + int (m div 10 mod 10) * 10 + int (m mod 10) = int (m mod 10000)"
proof -
  have a: "m mod 10000 = m mod 1000 + 1000 * (m div 1000 mod 10)"
    using mod_mult2_eq [of m 1000 10] by simp
  have b: "m mod 1000 = m mod 100 + 100 * (m div 100 mod 10)"
    using mod_mult2_eq [of m 100 10] by simp
  have c: "m mod 100 = m mod 10 + 10 * (m div 10 mod 10)"
    using mod_mult2_eq [of m 10 10] by simp
  show ?thesis unfolding a b c by simp
qed

lemma to_string_five:
  assumes "10000 \<le> n" and "n < 100000"
  shows "to_string n = [digit_char (nat n div 10000), digit_char (nat n div 1000 mod 10),
     digit_char (nat n div 100 mod 10), digit_char (nat n div 10 mod 10), digit_char (nat n mod 10)]"
  using assms by (simp add: to_string_def digits_five)

lemma stoi_tail_five:
  assumes "10000 \<le> n" and "n < 100000"
  shows "stoi (drop (Suc 0) (to_string n)) = Inr (n mod 10000)"
proof -
  have "stoi (drop (Suc 0) (to_string n)) = Inr (int (nat n mod 10000))"
    by (simp add: to_string_five [OF assms] stoi_four four_digits_value)
  also have "int (nat n mod 10000) = n mod 10000"
    using assms by (simp add: zmod_int)
  finally show ?thesis .
qed

lemma uint_u16_bound: "uint (a :: u16) < 65536"
  using uint_bounded [of a] by simp

lemma string_confidence_alert:
  assumes "20000 \<le> uint a"
  shows "string_confidence a = Inr (uint a mod 10000 mod 255)"
proof -
  have r: "10000 \<le> uint a" "uint a < 100000"
    using assms uint_u16_bound [of a] by simp_all
  have len: "length (to_string (uint a)) = 5"
    by (simp add: to_string_five [OF r])
  have sub: "substr 1 (to_string (uint a)) = Inr (drop (Suc 0) (to_string (uint a)))"
    by (simp add: substr_def len)
  have "0 \<le> uint a mod 10000" by simp
  then show ?thesis
    unfolding string_confidence_def sub by (simp add: stoi_tail_five [OF r] c_mod_nonneg)
qed

lemma total_days_bounds: "0 \<le> total_days a" "total_days a < 35536"
  using uint_u16_bound [of a] by (simp_all add: total_days_def)

lemma uint_u8_of_int: "0 \<le> k \<Longrightarrow> k < 256 \<Longrightarrow> uint (word_of_int k :: u8) = k"
  by (simp add: uint_word_of_int_eq take_bit_eq_mod)

lemma uint_u8_of_int_mod: "uint (word_of_int k :: u8) = k mod 256"
  by (simp add: uint_word_of_int_eq take_bit_eq_mod)

lemma uint_ucast_u8: "uint (ucast (i :: u16) :: u8) = uint i mod 256"
  by (simp add: unsigned_ucast_eq take_bit_eq_mod)

lemma encode_alert:
  assumes "20000 \<le> uint a"
  shows "encode a i =
     Inr (word_of_int (total_days a div 255), word_of_int (uint a mod 10000 mod 255),
          word_of_int ((if uint a \<le> 29999 then 100 else 200) + uint i))"
  using assms total_days_bounds [of a]
  by (simp add: encode_def string_confidence_alert c_div_nonneg)

lemma encode_no_alert:
  assumes "uint a < 20000"
  shows "encode a i = Inr (0, 0, ucast i)"
  using assms by (simp add: encode_def total_days_def c_div_def)

lemma day_byte_fits:
  assumes "0 \<le> k" and "k < 65280"
  shows "uint (word_of_int (k div 255) :: u8) = k div 255"
proof -
  have "k div 255 \<le> 65279 div 255"
    using assms by (intro zdiv_mono1) simp_all
  then have "k div 255 < 256" by simp
  moreover have "0 \<le> k div 255" using assms by simp
  ultimately show ?thesis by (simp add: uint_u8_of_int)
qed

lemma mod_10000_shift:
  assumes "q * 10000 \<le> n" and "n < q * 10000 + 10000"
  shows "(n::int) mod 10000 = n - q * 10000"
proof -
  have "n mod 10000 = (n - q * 10000 + q * 10000) mod 10000" by simp
  also have "\<dots> = (n - q * 10000) mod 10000" by (rule mod_mult_self1)
  also have "\<dots> = n - q * 10000" using assms by (intro mod_pos_pos_trivial) simp_all
  finally show ?thesis .
qed

lemma encode_alert_uint:
  assumes "20000 \<le> uint a"
  shows "\<exists>d c t. encode a i = Inr (d, c, t) \<and> uint d = total_days a div 255 \<and>
           uint c = uint a mod 10000 mod 255 \<and>
           uint t = ((if uint a \<le> 29999 then 100 else 200) + uint i) mod 256"
proof -
  have 1: "uint (word_of_int (total_days a div 255) :: u8) = total_days a div 255"
    using total_days_bounds [of a] by (intro day_byte_fits) simp_all
  have "uint a mod 10000 mod 255 < 255" by simp
  then have "uint a mod 10000 mod 255 < 256" by linarith
  moreover have "0 \<le> uint a mod 10000 mod 255" by simp
  ultimately have 2: "uint (word_of_int (uint a mod 10000 mod 255) :: u8) = uint a mod 10000 mod 255"
    by (rule uint_u8_of_int [rotated])
  have 3: "uint (word_of_int ((if uint a \<le> 29999 then 100 else 200) + uint i) :: u8) =
      ((if uint a \<le> 29999 then 100 else 200) + uint i) mod 256"
    by (rule uint_u8_of_int_mod)
  from encode_alert [OF assms, of i] 1 2 3 show ?thesis by blast
qed

section \<open>The codec on the documented ranges\<close>

text \<open>
  C1. For an alert sample in [20000, 29999] and any intensity sample, the pixel is
  ((alert - 20000) div 255, (alert - 20000) mod 255, (100 + intensity) mod 256); for
  an alert sample in [30000, 39999] it is
  ((alert - 30000) div 255, (alert - 30000) mod 255, (200 + intensity) mod 256). The
  intensity byte wraps around.
\<close>

theorem encode_alert_ranges:
  "(20000 \<le> uint a \<and> uint a \<le> 29999 \<longrightarrow>
      (\<exists>dayByte confidenceByte intensityByte.
         encode a i = Inr (dayByte, confidenceByte, intensityByte) \<and>
         uint dayByte = (uint a - 20000) div 255 \<and>
         uint confidenceByte = (uint a - 20000) mod 255 \<and>
         uint intensityByte = (100 + uint i) mod 256)) \<and>
   (30000 \<le> uint a \<and> uint a \<le> 39999 \<longrightarrow>
      (\<exists>dayByte confidenceByte intensityByte.
         encode a i = Inr (dayByte, confidenceByte, intensityByte) \<and>
         uint dayByte = (uint a - 30000) div 255 \<and>
         uint confidenceByte = (uint a - 30000) mod 255 \<and>
         uint intensityByte = (200 + uint i) mod 256))"
proof (intro conjI impI)
  assume r: "20000 \<le> uint a \<and> uint a \<le> 29999"
  have m: "uint a mod 10000 = uint a - 20000"
    using r mod_10000_shift [of 2 "uint a"] by simp
  have d: "total_days a = uint a - 20000"
    using r by (simp add: total_days_def)
  from r have "20000 \<le> uint a" by simp
  from encode_alert_uint [OF this, of i]
  show "\<exists>dayByte confidenceByte intensityByte.
         encode a i = Inr (dayByte, confidenceByte, intensityByte) \<and>
         uint dayByte = (uint a - 20000) div 255 \<and>
         uint confidenceByte = (uint a - 20000) mod 255 \<and>
         uint intensityByte = (100 + uint i) mod 256"
    unfolding m d using r by simp
next
  assume r: "30000 \<le> uint a \<and> uint a \<le> 39999"
  have m: "uint a mod 10000 = uint a - 30000"
    using r mod_10000_shift [of 3 "uint a"] by simp
  have d: "total_days a = uint a - 30000"
    using r by (simp add: total_days_def)
  from r have "20000 \<le> uint a" by simp
  from encode_alert_uint [OF this, of i]
  show "\<exists>dayByte confidenceByte intensityByte.
         encode a i = Inr (dayByte, confidenceByte, intensityByte) \<and>
         uint dayByte = (uint a - 30000) div 255 \<and>
         uint confidenceByte = (uint a - 30000) mod 255 \<and>
         uint intensityByte = (200 + uint i) mod 256"
    unfolding m d using r by simp
qed

theorem encode_alert_ranges_witness:
  "(20000 \<le> uint (20100 :: u16) \<and> uint (20100 :: u16) \<le> 29999) \<and>
   (30000 \<le> uint (30300 :: u16) \<and> uint (30300 :: u16) \<le> 39999) \<and>
   (\<exists>d c t. encode 20100 10 = Inr (d, c, t) \<and> uint d = 0 \<and> uint c = 100 \<and> uint t = 110) \<and>
   (\<exists>d c t. encode 30300 0 = Inr (d, c, t) \<and> uint d = 1 \<and> uint c = 45 \<and> uint t = 200)"
  using encode_alert_ranges [of 20100 10] encode_alert_ranges [of 30300 0] by simp

text \<open>
  C2. For an alert sample below 20000 and any intensity sample, the pixel is
  (0, 0, intensity mod 256): the intensity sample is stored as it is, cut to its low
  8 bits, and no class offset is added.
\<close>

theorem encode_no_alert_passthrough:
  assumes "uint a < 20000"
  shows "\<exists>intensityByte. encode a i = Inr (0, 0, intensityByte) \<and>
           intensityByte = ucast i \<and> uint intensityByte = uint i mod 256"
  using assms by (simp add: encode_no_alert uint_ucast_u8)

theorem encode_no_alert_passthrough_witness:
  "uint (19999 :: u16) < 20000 \<and>
   (\<exists>t. encode 19999 1000 = Inr (0, 0, t) \<and> t = ucast (1000 :: u16) \<and> uint t = 232)"
  using encode_no_alert_passthrough [of 19999 1000] by simp

section \<open>The codec outside the documented range\<close>

lemma mod_255_shift_differs:
  assumes "q = 1 \<or> q = 2 \<or> q = 3"
  shows "(n::int) mod 255 \<noteq> (n + q * 10000) mod 255"
proof
  assume "n mod 255 = (n + q * 10000) mod 255"
  then have "255 dvd n - (n + q * 10000)" by (simp only: mod_eq_dvd_iff)
  then have "255 dvd q * 10000" by (simp add: dvd_diff_commute)
  with assms show False by (elim disjE) simp_all
qed

text \<open>
  C3, as the program has it. For every alert sample from 30000 up to 65535 and any
  intensity sample the pixel is of class B: the day byte is (alert - 30000) div 255
  and the intensity byte is (200 + intensity) mod 256. The confidence byte is
  (alert mod 10000) mod 255, the number written by the decimal digits after the first
  one; it is (alert - 30000) mod 255 exactly when the alert sample is at most 39999.
\<close>

theorem encode_class_B_confidence:
  assumes "30000 \<le> uint a"
  shows "\<exists>dayByte confidenceByte intensityByte.
           encode a i = Inr (dayByte, confidenceByte, intensityByte) \<and>
           uint dayByte = (uint a - 30000) div 255 \<and>
           uint intensityByte = (200 + uint i) mod 256 \<and>
           uint confidenceByte = (uint a mod 10000) mod 255 \<and>
           (uint confidenceByte = (uint a - 30000) mod 255 \<longleftrightarrow> uint a \<le> 39999)"
proof -
  have d: "total_days a = uint a - 30000"
    using assms by (simp add: total_days_def)
  from assms have "20000 \<le> uint a" by simp
  from encode_alert_uint [OF this, of i] obtain dy c t where
    e: "encode a i = Inr (dy, c, t)" and dy: "uint dy = (uint a - 30000) div 255"
    and c: "uint c = uint a mod 10000 mod 255" and t: "uint t = (200 + uint i) mod 256"
    unfolding d using assms by auto
  have "uint a mod 10000 mod 255 = (uint a - 30000) mod 255 \<longleftrightarrow> uint a \<le> 39999"
  proof (cases "uint a \<le> 39999")
    case True
    then show ?thesis using assms mod_10000_shift [of 3 "uint a"] by simp
  next
    case False
    then consider "40000 \<le> uint a \<and> uint a < 50000" | "50000 \<le> uint a \<and> uint a < 60000"
      | "60000 \<le> uint a \<and> uint a < 70000"
      using uint_u16_bound [of a] by linarith
    then have "\<exists>q. (q = 1 \<or> q = 2 \<or> q = 3) \<and> uint a - 30000 = uint a mod 10000 + q * 10000"
    proof cases
      case 1
      then have "uint a mod 10000 = uint a - 4 * 10000" by (intro mod_10000_shift) simp_all
      then show ?thesis by (intro exI [of _ 1]) simp
    next
      case 2
      then have "uint a mod 10000 = uint a - 5 * 10000" by (intro mod_10000_shift) simp_all
      then show ?thesis by (intro exI [of _ 2]) simp
    next
      case 3
      then have "uint a mod 10000 = uint a - 6 * 10000" by (intro mod_10000_shift) simp_all
      then show ?thesis by (intro exI [of _ 3]) simp
    qed
    then obtain q where q: "q = 1 \<or> q = 2 \<or> q = 3"
      and s: "uint a - 30000 = uint a mod 10000 + q * 10000" by blast
    have "uint a mod 10000 mod 255 \<noteq> (uint a - 30000) mod 255"
      unfolding s by (rule mod_255_shift_differs [OF q])
    with False show ?thesis by simp
  qed
  with e dy c t show ?thesis by auto
qed

theorem encode_class_B_confidence_witness:
  "30000 \<le> uint (30300 :: u16) \<and>
   (\<exists>d c t. encode 30300 0 = Inr (d, c, t) \<and> uint d = 1 \<and> uint t = 200 \<and> uint c = 45)"
  using encode_class_B_confidence [of 30300 0] by simp

text \<open>
  C3, as the specification states it, fails at the alert sample 40000: the digits after
  the first one are 0000, so the confidence byte is 0, and (40000 - 30000) mod 255 is 55.
\<close>

theorem confidence_above_39999_counterexample:
  "30000 \<le> uint (40000 :: u16) \<and> encode 40000 0 = Inr (39, 0, 200) \<and>
   uint (0 :: u8) \<noteq> (uint (40000 :: u16) - 30000) mod 255"
  using encode_alert [of 40000 0] by (simp add: total_days_def)

text \<open>
  C4, as the program has it. For every alert sample above 39999 and any intensity
  sample the pixel is of class B, and the confidence byte is
  ((alert - 30000) mod 10000) mod 255; the day byte is (alert - 30000) div 255, from
  the subtraction alone, with no reduction modulo 10000.
\<close>

theorem encode_above_39999:
  assumes "39999 < uint a"
  shows "\<exists>dayByte confidenceByte intensityByte.
           encode a i = Inr (dayByte, confidenceByte, intensityByte) \<and>
           uint dayByte = (uint a - 30000) div 255 \<and>
           uint confidenceByte = ((uint a - 30000) mod 10000) mod 255 \<and>
           uint intensityByte = (200 + uint i) mod 256"
proof -
  have d: "total_days a = uint a - 30000"
    using assms by (simp add: total_days_def)
  have m: "(uint a - 30000) mod 10000 = uint a mod 10000"
    using mod_mult_self1 [of "uint a - 30000" 3 10000] by simp
  from assms have "20000 \<le> uint a" by simp
  from encode_alert_uint [OF this, of i] show ?thesis
    unfolding d m using assms by simp
qed

theorem encode_above_39999_witness:
  "39999 < uint (45000 :: u16) \<and>
   (\<exists>d c t. encode 45000 0 = Inr (d, c, t) \<and> uint d = 58 \<and> uint c = 155 \<and> uint t = 200)"
  using encode_above_39999 [of 45000 0] by simp

text \<open>
  C4, as the specification states it, fails at the alert sample 45000: the day byte is
  15000 div 255 = 58, and ((45000 - 30000) mod 10000) div 255 is 19.
\<close>

theorem day_byte_above_39999_counterexample:
  "39999 < uint (45000 :: u16) \<and> encode 45000 0 = Inr (58, 155, 200) \<and>
   uint (58 :: u8) \<noteq> ((uint (45000 :: u16) - 30000) mod 10000) div 255"
  using encode_alert [of 45000 0] by (simp add: total_days_def)

section \<open>The string path of line 103\<close>

text \<open>
  C5. For every alert sample in [20000, 39999], what line 103 computes from the decimal
  digits (drop the first digit, parse the rest, reduce modulo 255) is the confidence
  byte of the specification's integer definition, the day offset modulo 255.
\<close>

theorem string_confidence_refines_spec:
  assumes "20000 \<le> uint a" and "uint a \<le> 39999"
  shows "string_confidence a = Inr (spec_confidenceByte (uint a))"
proof -
  have "uint a mod 10000 = spec_dayOffset (uint a)"
  proof (cases "uint a \<le> 29999")
    case True
    then show ?thesis
      using assms mod_10000_shift [of 2 "uint a"] by (simp add: spec_dayOffset_def)
  next
    case False
    then show ?thesis
      using assms mod_10000_shift [of 3 "uint a"] by (simp add: spec_dayOffset_def)
  qed
  then show ?thesis
    by (simp add: string_confidence_alert [OF assms(1)] spec_confidenceByte_def)
qed

theorem string_confidence_refines_spec_witness:
  "20000 \<le> uint (25500 :: u16) \<and> uint (25500 :: u16) \<le> 39999 \<and>
   string_confidence 25500 = Inr 145 \<and> spec_confidenceByte (uint (25500 :: u16)) = 145"
  using string_confidence_refines_spec [of 25500]
  by (simp add: spec_confidenceByte_def spec_dayOffset_def)

text \<open>
  C9. For every alert sample of at least 20000 the decimal representation has exactly
  5 characters, \<^verbatim>\<open>substr(1)\<close> does not throw and leaves 4 characters, and
  \<^verbatim>\<open>stoi\<close> does not throw on them and returns alert mod 10000.
\<close>

theorem alert_string_parse_safe:
  fixes a :: u16
  assumes "20000 \<le> uint a"
  shows "length (to_string (uint a)) = 5 \<and>
         substr 1 (to_string (uint a)) = Inr (drop 1 (to_string (uint a))) \<and>
         length (drop 1 (to_string (uint a))) = 4 \<and>
         stoi (drop 1 (to_string (uint a))) = Inr (uint a mod 10000)"
proof -
  have r: "10000 \<le> uint a" "uint a < 100000"
    using assms uint_u16_bound [of a] by simp_all
  have len: "length (to_string (uint a)) = 5"
    by (simp add: to_string_five [OF r])
  moreover have "substr 1 (to_string (uint a)) = Inr (drop 1 (to_string (uint a)))"
    by (simp add: substr_def len)
  moreover have "stoi (drop 1 (to_string (uint a))) = Inr (uint a mod 10000)"
    using stoi_tail_five [OF r] by simp
  ultimately show ?thesis by simp
qed

theorem alert_string_parse_safe_witness:
  "20000 \<le> uint (20007 :: u16) \<and> length (to_string (uint (20007 :: u16))) = 5 \<and>
   stoi (drop 1 (to_string (uint (20007 :: u16)))) = Inr 7"
  using alert_string_parse_safe [of 20007] by simp

text \<open>
  C10. For every pair of 16-bit samples the codec returns a pixel, and its confidence
  byte is between 0 and 254: the value 255 does not occur in the second output band.
\<close>

theorem confidence_byte_below_255:
  "\<exists>dayByte confidenceByte intensityByte.
     encode a i = Inr (dayByte, confidenceByte, intensityByte) \<and>
     0 \<le> uint confidenceByte \<and> uint confidenceByte \<le> 254 \<and> confidenceByte \<noteq> 255"
proof (cases "uint a < 20000")
  case True
  then show ?thesis by (simp add: encode_no_alert)
next
  case False
  then have "20000 \<le> uint a" by simp
  from encode_alert_uint [OF this, of i] obtain d c t where
    e: "encode a i = Inr (d, c, t)" and c: "uint c = uint a mod 10000 mod 255" by blast
  have "uint a mod 10000 mod 255 < 255" by simp
  with c have le: "uint c \<le> 254" by linarith
  then have "c \<noteq> 255" by auto
  with e le show ?thesis by simp
qed

section \<open>Facts about the loops\<close>

lemma encode_total: "\<exists>p. encode a i = Inr p"
  by (cases "uint a < 20000") (simp_all add: encode_no_alert encode_alert)

lemma pixel_loop_stop: "\<not> x < xsize \<Longrightarrow> pixel_loop x xsize b = Inr b"
  by (subst pixel_loop.simps) simp

lemma pixel_loop_step:
  "x < xsize \<Longrightarrow> encode (in1_data b ! x) (in2_data b ! x) = Inr p \<Longrightarrow>
     pixel_loop x xsize b = pixel_loop (Suc x) xsize (store_pixel x p b)"
  by (subst pixel_loop.simps) simp

lemma pixel_loop_total: "\<exists>b'. pixel_loop x xsize b = Inr b'"
proof (induction x xsize b rule: pixel_loop.induct)
  case (1 x xsize b)
  show ?case
  proof (cases "x < xsize")
    case False
    then show ?thesis by (simp add: pixel_loop_stop)
  next
    case True
    obtain p where p: "encode (in1_data b ! x) (in2_data b ! x) = Inr p"
      using encode_total by blast
    from "1.IH" [OF True p] show ?thesis
      by (simp add: pixel_loop_step [OF True p])
  qed
qed

lemma store_pixel_simps:
  "in1_data (store_pixel x p b) = in1_data b"
  "in2_data (store_pixel x p b) = in2_data b"
  "out_data1 (store_pixel x p b) = (out_data1 b)[x := fst p]"
  "out_data2 (store_pixel x p b) = (out_data2 b)[x := fst (snd p)]"
  "out_data3 (store_pixel x p b) = (out_data3 b)[x := snd (snd p)]"
  by (simp_all add: store_pixel_def)

lemma pixel_loop_spec:
  assumes "length (out_data1 b) = W" and "length (out_data2 b) = W" and "length (out_data3 b) = W"
  shows "\<exists>b'. pixel_loop x W b = Inr b' \<and> in1_data b' = in1_data b \<and> in2_data b' = in2_data b \<and>
           length (out_data1 b') = W \<and> length (out_data2 b') = W \<and> length (out_data3 b') = W \<and>
           (\<forall>j. x \<le> j \<and> j < W \<longrightarrow>
              encode (in1_data b ! j) (in2_data b ! j) =
                Inr (out_data1 b' ! j, out_data2 b' ! j, out_data3 b' ! j)) \<and>
           (\<forall>j<x. out_data1 b' ! j = out_data1 b ! j \<and> out_data2 b' ! j = out_data2 b ! j \<and>
              out_data3 b' ! j = out_data3 b ! j)"
  using assms
proof (induction x W b rule: pixel_loop.induct)
  case (1 x xsize b)
  show ?case
  proof (cases "x < xsize")
    case False
    then show ?thesis using "1.prems" by (auto simp: pixel_loop_stop)
  next
    case True
    obtain p where p: "encode (in1_data b ! x) (in2_data b ! x) = Inr p"
      using encode_total by blast
    let ?b1 = "store_pixel x p b"
    have len: "length (out_data1 ?b1) = xsize" "length (out_data2 ?b1) = xsize"
      "length (out_data3 ?b1) = xsize"
      using "1.prems" by (simp_all add: store_pixel_simps)
    from "1.IH" [OF True p len] obtain b' where
      run: "pixel_loop (Suc x) xsize ?b1 = Inr b'"
      and ins: "in1_data b' = in1_data b" "in2_data b' = in2_data b"
      and lens: "length (out_data1 b') = xsize" "length (out_data2 b') = xsize"
        "length (out_data3 b') = xsize"
      and later: "\<And>j. Suc x \<le> j \<Longrightarrow> j < xsize \<Longrightarrow>
          encode (in1_data b ! j) (in2_data b ! j) =
            Inr (out_data1 b' ! j, out_data2 b' ! j, out_data3 b' ! j)"
      and earlier: "\<And>j. j < Suc x \<Longrightarrow> out_data1 b' ! j = out_data1 ?b1 ! j \<and>
          out_data2 b' ! j = out_data2 ?b1 ! j \<and> out_data3 b' ! j = out_data3 ?b1 ! j"
      by (auto simp: store_pixel_simps)
    have here: "out_data1 b' ! x = fst p" "out_data2 b' ! x = fst (snd p)"
      "out_data3 b' ! x = snd (snd p)"
      using earlier [of x] True "1.prems" by (simp_all add: store_pixel_simps)
    have at_x: "encode (in1_data b ! x) (in2_data b ! x) =
        Inr (out_data1 b' ! x, out_data2 b' ! x, out_data3 b' ! x)"
      by (simp add: p here)
    have from_x: "encode (in1_data b ! j) (in2_data b ! j) =
        Inr (out_data1 b' ! j, out_data2 b' ! j, out_data3 b' ! j)"
      if "x \<le> j" and "j < xsize" for j
    proof (cases "j = x")
      case True
      then show ?thesis using at_x by simp
    next
      case False
      with that have "Suc x \<le> j" by simp
      then show ?thesis using that by (intro later)
    qed
    have before_x: "out_data1 b' ! j = out_data1 b ! j \<and> out_data2 b' ! j = out_data2 b ! j \<and>
        out_data3 b' ! j = out_data3 b ! j" if "j < x" for j
      using earlier [of j] that by (simp add: store_pixel_simps)
    have "pixel_loop x xsize b = Inr b'"
      by (simp add: pixel_loop_step [OF True p] run)
    with ins lens from_x before_x show ?thesis by blast
  qed
qed

lemma row_loop_stop: "\<not> y < ysize \<Longrightarrow> row_loop g xsize ysize y st = Inr st"
  by (subst row_loop.simps) simp

lemma row_loop_step:
  "y < ysize \<Longrightarrow> pixel_loop 0 xsize (fst (read_rows g y (fst st))) = Inr b \<Longrightarrow>
     row_loop g xsize ysize y st =
       row_loop g xsize ysize (Suc y) (b, snd st @ snd (read_rows g y (fst st)) @ write_rows g y b)"
  by (subst row_loop.simps) simp

lemma row_events_ops:
  "map event_op (snd (read_rows g y b) @ write_rows g y b') = row_ops y"
  by (simp add: read_rows_def write_rows_def row_ops_def Let_def)

lemma row_loop_ops:
  "\<exists>b' tr'. row_loop g xsize ysize y st = Inr (b', tr') \<and>
     map event_op tr' = map event_op (snd st) @ concat (map row_ops [y..<ysize])"
proof (induction g xsize ysize y st rule: row_loop.induct)
  case (1 g xsize ysize y st)
  show ?case
  proof (cases "y < ysize")
    case False
    then show ?thesis by (cases st) (simp add: row_loop_stop)
  next
    case True
    obtain b where b: "pixel_loop 0 xsize (fst (read_rows g y (fst st))) = Inr b"
      using pixel_loop_total by blast
    from "1.IH" [OF True b] obtain b' tr' where
      run: "row_loop g xsize ysize (Suc y)
              (b, snd st @ snd (read_rows g y (fst st)) @ write_rows g y b) = Inr (b', tr')"
      and ops: "map event_op tr' =
          map event_op (snd st @ snd (read_rows g y (fst st)) @ write_rows g y b)
            @ concat (map row_ops [Suc y..<ysize])"
      by auto
    have "map event_op tr' = map event_op (snd st) @ concat (map row_ops [y..<ysize])"
      using ops row_events_ops [of g y "fst st" b] True by (simp add: upt_conv_Cons)
    then show ?thesis
      by (simp add: row_loop_step [OF True b] run)
  qed
qed

lemma pixel_loop_row:
  assumes "length (out_data1 b) = W" and "length (out_data2 b) = W" and "length (out_data3 b) = W"
  shows "\<exists>b'. pixel_loop 0 W b = Inr b' \<and>
           length (out_data1 b') = W \<and> length (out_data2 b') = W \<and> length (out_data3 b') = W \<and>
           (\<forall>x<W. encode (in1_data b ! x) (in2_data b ! x) =
                Inr (out_data1 b' ! x, out_data2 b' ! x, out_data3 b' ! x))"
  using pixel_loop_spec [OF assms, of 0] by auto

lemma row_loop_rows:
  assumes "\<forall>y<H. \<forall>buf. rio_read g 1 y buf = (CE_None, band1 y) \<and>
             rio_read g 2 y buf = (CE_None, band2 y)"
    and "\<forall>y<H. \<forall>k d. rio_write g k y d = CE_None"
    and "length (out_data1 (fst st)) = W" and "length (out_data2 (fst st)) = W"
    and "length (out_data3 (fst st)) = W"
  shows "\<exists>b' rows. row_loop g W H y st = Inr (b', snd st @ concat (map rows [y..<H])) \<and>
     (\<forall>y'. y \<le> y' \<and> y' < H \<longrightarrow>
        (\<exists>d c t. rows y' = [RowRead 1 y' CE_None, RowRead 2 y' CE_None,
                     RowWrite 1 y' d CE_None, RowWrite 2 y' c CE_None, RowWrite 3 y' t CE_None] \<and>
           length d = W \<and> length c = W \<and> length t = W \<and>
           (\<forall>x<W. encode (band1 y' ! x) (band2 y' ! x) = Inr (d ! x, c ! x, t ! x))))"
  using assms
proof (induction g W H y st rule: row_loop.induct)
  case (1 g xsize ysize y st)
  show ?case
  proof (cases "y < ysize")
    case False
    then show ?thesis
      by (intro exI [of _ "fst st"] exI [of _ "\<lambda>_. []"]) (auto simp: row_loop_stop)
  next
    case True
    let ?rb = "fst (read_rows g y (fst st))"
    have rd: "rio_read g 1 y (in1_data (fst st)) = (CE_None, band1 y)"
      "rio_read g 2 y (in2_data (fst st)) = (CE_None, band2 y)"
      using "1.prems"(1) True by simp_all
    have rb: "in1_data ?rb = band1 y" "in2_data ?rb = band2 y"
      "out_data1 ?rb = out_data1 (fst st)" "out_data2 ?rb = out_data2 (fst st)"
      "out_data3 ?rb = out_data3 (fst st)"
      unfolding read_rows_def Let_def rd by simp_all
    have re: "snd (read_rows g y (fst st)) = [RowRead 1 y CE_None, RowRead 2 y CE_None]"
      unfolding read_rows_def Let_def rd by simp
    have "length (out_data1 ?rb) = xsize" "length (out_data2 ?rb) = xsize"
      "length (out_data3 ?rb) = xsize"
      using "1.prems" by (simp_all add: rb)
    from pixel_loop_row [OF this] obtain b where
      b: "pixel_loop 0 xsize ?rb = Inr b"
      and bl: "length (out_data1 b) = xsize" "length (out_data2 b) = xsize"
        "length (out_data3 b) = xsize"
      and px: "\<And>x. x < xsize \<Longrightarrow> encode (band1 y ! x) (band2 y ! x) =
          Inr (out_data1 b ! x, out_data2 b ! x, out_data3 b ! x)"
      by (auto simp: rb)
    let ?ev = "[RowRead 1 y CE_None, RowRead 2 y CE_None, RowWrite 1 y (out_data1 b) CE_None,
        RowWrite 2 y (out_data2 b) CE_None, RowWrite 3 y (out_data3 b) CE_None]"
    have we: "snd (read_rows g y (fst st)) @ write_rows g y b = ?ev"
      using "1.prems"(2) True by (simp add: re write_rows_def)
    let ?st1 = "(b, snd st @ snd (read_rows g y (fst st)) @ write_rows g y b)"
    have "length (out_data1 (fst ?st1)) = xsize" "length (out_data2 (fst ?st1)) = xsize"
      "length (out_data3 (fst ?st1)) = xsize"
      using bl by simp_all
    from "1.IH" [OF True b "1.prems"(1,2) this] obtain b' rows where
      run: "row_loop g xsize ysize (Suc y) ?st1 =
          Inr (b', snd ?st1 @ concat (map rows [Suc y..<ysize]))"
      and rows: "\<And>y'. Suc y \<le> y' \<Longrightarrow> y' < ysize \<Longrightarrow>
        (\<exists>d c t. rows y' = [RowRead 1 y' CE_None, RowRead 2 y' CE_None,
                     RowWrite 1 y' d CE_None, RowWrite 2 y' c CE_None, RowWrite 3 y' t CE_None] \<and>
           length d = xsize \<and> length c = xsize \<and> length t = xsize \<and>
           (\<forall>x<xsize. encode (band1 y' ! x) (band2 y' ! x) = Inr (d ! x, c ! x, t ! x)))"
      by blast
    let ?rows = "rows(y := ?ev)"
    have same: "map ?rows [Suc y..<ysize] = map rows [Suc y..<ysize]"
      by (intro map_cong) auto
    have cat: "concat (map ?rows [y..<ysize]) = ?ev @ concat (map rows [Suc y..<ysize])"
      using True by (simp add: upt_conv_Cons same del: fun_upd_apply) simp
    have run': "row_loop g xsize ysize (Suc y) (b, snd st @ ?ev) =
        Inr (b', snd st @ ?ev @ concat (map rows [Suc y..<ysize]))"
      using run unfolding we by simp
    have step: "row_loop g xsize ysize y st = row_loop g xsize ysize (Suc y) (b, snd st @ ?ev)"
      using row_loop_step [OF True b] unfolding we .
    have "row_loop g xsize ysize y st = Inr (b', snd st @ concat (map ?rows [y..<ysize]))"
      unfolding cat step run' ..
    moreover have "\<exists>d c t. ?rows y' = [RowRead 1 y' CE_None, RowRead 2 y' CE_None,
                     RowWrite 1 y' d CE_None, RowWrite 2 y' c CE_None, RowWrite 3 y' t CE_None] \<and>
           length d = xsize \<and> length c = xsize \<and> length t = xsize \<and>
           (\<forall>x<xsize. encode (band1 y' ! x) (band2 y' ! x) = Inr (d ! x, c ! x, t ! x))"
      if "y \<le> y'" and "y' < ysize" for y'
    proof (cases "y' = y")
      case True
      then show ?thesis using bl px by simp
    next
      case False
      with that have "Suc y \<le> y'" by simp
      from rows [OF this that(2)] False show ?thesis by simp
    qed
    ultimately show ?thesis by blast
  qed
qed

lemma encode_0_3: "encode 0 3 = Inr (0, 0, 3)"
  by (simp add: encode_no_alert)

lemma encode_30001_3: "encode 30001 3 = Inr (0, 1, 203)"
  using encode_alert [of 30001 3] by (simp add: total_days_def)

lemma six_list: "length xs = 6 \<Longrightarrow> \<exists>a b c d e f. xs = [a, b, c, d, e, f]"
  by (auto simp: eval_nat_numeral length_Suc_conv)

section \<open>The row driver\<close>

text \<open>
  C6. For a raster of width W, at least 1, and height H whose rows the Source delivers
  and the Sink accepts, the loop ends normally after exactly H blocks of calls, one for
  each row 0, 1, ..., H - 1 in this order: the read of the row from band 1 and from
  band 2, then the write of the row to bands 1, 2 and 3. No row is left out or done
  twice, and at every column the three samples written for row y are the pixel that
  the codec returns for the two samples read for row y.
\<close>

theorem row_driver_streams_rows:
  assumes "0 < W"
    and "buffers_of_size W b0"
    and "\<forall>y<H. length (band1 y) = W \<and> length (band2 y) = W"
    and "\<forall>y<H. \<forall>buf. rio_read g 1 y buf = (CE_None, band1 y) \<and>
           rio_read g 2 y buf = (CE_None, band2 y)"
    and "\<forall>y<H. \<forall>k d. rio_write g k y d = CE_None"
  shows "\<exists>b rows. main_loop g W H b0 = Inr (b, concat (map rows [0..<H])) \<and>
     map event_op (concat (map rows [0..<H])) = concat (map row_ops [0..<H]) \<and>
     (\<forall>y<H. \<exists>d c t.
        rows y = [RowRead 1 y CE_None, RowRead 2 y CE_None,
                  RowWrite 1 y d CE_None, RowWrite 2 y c CE_None, RowWrite 3 y t CE_None] \<and>
        length d = W \<and> length c = W \<and> length t = W \<and>
        (\<forall>x<W. encode (band1 y ! x) (band2 y ! x) = Inr (d ! x, c ! x, t ! x)))"
proof -
  have len: "length (out_data1 (fst (b0, []))) = W" "length (out_data2 (fst (b0, []))) = W"
    "length (out_data3 (fst (b0, []))) = W"
    using assms(2) by (simp_all add: buffers_of_size_def)
  from row_loop_rows [OF assms(4,5) len, of 0] obtain b rows where
    run: "main_loop g W H b0 = Inr (b, concat (map rows [0..<H]))"
    and rows: "\<forall>y<H. \<exists>d c t.
        rows y = [RowRead 1 y CE_None, RowRead 2 y CE_None,
                  RowWrite 1 y d CE_None, RowWrite 2 y c CE_None, RowWrite 3 y t CE_None] \<and>
        length d = W \<and> length c = W \<and> length t = W \<and>
        (\<forall>x<W. encode (band1 y ! x) (band2 y ! x) = Inr (d ! x, c ! x, t ! x))"
    by (auto simp: main_loop_def)
  from row_loop_ops [of g W H 0 "(b0, [])"] run
  have "map event_op (concat (map rows [0..<H])) = concat (map row_ops [0..<H])"
    by (simp add: main_loop_def)
  with run rows show ?thesis by blast
qed

theorem row_driver_streams_rows_witness:
  "0 < (2::nat) \<and> buffers_of_size 2 sample_buffers \<and>
   (\<exists>b rows. main_loop sample_io 2 1 sample_buffers = Inr (b, concat (map rows [0..<1])) \<and>
     map event_op (concat (map rows [0..<1])) = concat (map row_ops [0..<1]) \<and>
     (\<forall>y<1. \<exists>d c t.
        rows y = [RowRead 1 y CE_None, RowRead 2 y CE_None,
                  RowWrite 1 y d CE_None, RowWrite 2 y c CE_None, RowWrite 3 y t CE_None] \<and>
        length d = 2 \<and> length c = 2 \<and> length t = 2 \<and>
        (\<forall>x<2. encode ([0, 30001] ! x) ([3, 3] ! x) = Inr (d ! x, c ! x, t ! x))))"
proof -
  have h1: "0 < (2::nat)" by simp
  have h2: "buffers_of_size 2 sample_buffers"
    by (simp add: buffers_of_size_def sample_buffers_def)
  have h3: "\<forall>y<1. length ((\<lambda>_. [0, 30001 :: u16]) y) = 2 \<and> length ((\<lambda>_. [3, 3 :: u16]) y) = 2"
    by simp
  have h4: "\<forall>y<1. \<forall>buf. rio_read sample_io 1 y buf = (CE_None, (\<lambda>_. [0, 30001]) y) \<and>
           rio_read sample_io 2 y buf = (CE_None, (\<lambda>_. [3, 3]) y)"
    by (simp add: sample_io_def)
  have h5: "\<forall>y<1. \<forall>k d. rio_write sample_io k y d = CE_None"
    by (simp add: sample_io_def)
  from row_driver_streams_rows [OF h1 h2 h3 h4 h5] h1 h2 show ?thesis by simp
qed

text \<open>
  C7, as the program has it. The status of a read or a write is dropped: whatever the
  Source and the Sink return, failures included, the loop ends normally and has made
  the calls of every row 0, ..., H - 1 once and in order. A failed call is not tried
  again and its row is not left out, but the run is not stopped either: the rows after
  it are processed.
\<close>

theorem failed_rows_are_not_fatal:
  "\<exists>b tr. main_loop g W H b0 = Inr (b, tr) \<and>
     map event_op tr = concat (map row_ops [0..<H])"
  using row_loop_ops [of g W H 0 "(b0, [])"] by (simp add: main_loop_def)

text \<open>
  C7, as the specification states it, fails on the raster whose first read fails: the
  run ends normally, row 0 is computed from what the array held before, and row 1 is
  read and written after the failure.
\<close>

theorem failed_read_counterexample:
  "main_loop failing_io 1 2 failing_buffers =
     Inr (\<lparr>in1_data = [30001], in2_data = [3], out_data1 = [0], out_data2 = [1], out_data3 = [203]\<rparr>,
          [RowRead 1 0 CE_Failure, RowRead 2 0 CE_None,
           RowWrite 1 0 [0] CE_None, RowWrite 2 0 [0] CE_None, RowWrite 3 0 [3] CE_None,
           RowRead 1 1 CE_None, RowRead 2 1 CE_None,
           RowWrite 1 1 [0] CE_None, RowWrite 2 1 [1] CE_None, RowWrite 3 1 [203] CE_None]) \<and>
   \<not> stops_at_failure
         [RowRead 1 0 CE_Failure, RowRead 2 0 CE_None,
           RowWrite 1 0 [0] CE_None, RowWrite 2 0 [0] CE_None, RowWrite 3 0 [3] CE_None,
           RowRead 1 1 CE_None, RowRead 2 1 CE_None,
           RowWrite 1 1 [0] CE_None, RowWrite 2 1 [1] CE_None, RowWrite 3 1 [203] CE_None]"
  by (simp add: main_loop_def row_loop.simps pixel_loop.simps read_rows_def write_rows_def
      store_pixel_def failing_io_def failing_buffers_def encode_0_3 encode_30001_3)

section \<open>The georeference\<close>

text \<open>
  C8, as the program has it. The geotransform set on the output is built from three
  coefficients of the alert raster's: the origin (coefficients 0 and 3) and the pixel
  size (coefficient 1) are copied, coefficients 2 and 4 are 0 and coefficient 5 is
  minus the pixel size. It equals the input's six coefficients exactly when the input
  has coefficients 2 and 4 equal to 0 and coefficient 5 equal to minus coefficient 1.
  The projection set on the output is that of EPSG 3857, whatever the input.
\<close>

theorem output_georeference_built:
  assumes "length GeoTransform = 6"
  shows "geotransform (output_georeference wkt GeoTransform) =
           [GeoTransform ! 0, GeoTransform ! 1, 0, GeoTransform ! 3, 0, - (GeoTransform ! 1)] \<and>
         projection (output_georeference wkt GeoTransform) = wkt 3857 \<and>
         (geotransform (output_georeference wkt GeoTransform) = GeoTransform \<longleftrightarrow>
            GeoTransform ! 2 = 0 \<and> GeoTransform ! 4 = 0 \<and> GeoTransform ! 5 = - (GeoTransform ! 1))"
proof -
  from six_list [OF assms] obtain a b c d e f where gt: "GeoTransform = [a, b, c, d, e, f]"
    by blast
  show ?thesis
    unfolding gt by (auto simp: output_georeference_def adfGeoTransform_def Let_def)
qed

theorem output_georeference_built_witness:
  "length [100, 2, 0, 200, 0, - 2 :: real] = 6 \<and>
   geotransform (output_georeference epsg_label [100, 2, 0, 200, 0, - 2]) = [100, 2, 0, 200, 0, - 2] \<and>
   projection (output_georeference epsg_label [100, 2, 0, 200, 0, - 2]) = epsg_label 3857"
  using output_georeference_built [of "[100, 2, 0, 200, 0, - 2]" epsg_label] by simp

text \<open>
  C8, as the specification states it, fails for a geotransform with rotation terms and
  a pixel height that differs from the width: three of the six coefficients change.
\<close>

theorem geotransform_not_copied_counterexample:
  "length [100, 2, 1 / 2, 200, 1 / 4, - 3 :: real] = 6 \<and>
   adfGeoTransform [100, 2, 1 / 2, 200, 1 / 4, - 3] = [100, 2, 0, 200, 0, - 2] \<and>
   adfGeoTransform [100, 2, 1 / 2, 200, 1 / 4, - 3] \<noteq> [100, 2, 1 / 2, 200, 1 / 4, - 3]"
  by (simp add: adfGeoTransform_def)

end
